theory Spec2Isabelle
  imports Complex_Main
begin

section \<open>Data model (core/models.py)\<close>

text \<open>
  Identifiers are Python strings. Python integers are unbounded: \<open>int\<close>.

  Python floats are kept abstract. The records are polymorphic in the type \<open>'f\<close> of
  float values, and every function that computes with floats takes the float operations
  as a record \<open>F\<close>; a theorem about such a function holds for every interpretation of
  the operations, binary64 arithmetic among them. The operations are total: a float
  operation that raises in CPython is outside the model.
\<close>

record 'f float_ops =
  f_add :: "'f \<Rightarrow> 'f \<Rightarrow> 'f"
  f_sub :: "'f \<Rightarrow> 'f \<Rightarrow> 'f"
  f_mul :: "'f \<Rightarrow> 'f \<Rightarrow> 'f"
  f_div :: "'f \<Rightarrow> 'f \<Rightarrow> 'f"
  f_pow :: "'f \<Rightarrow> nat \<Rightarrow> 'f"
  f_sqrt :: "'f \<Rightarrow> 'f"
  f_abs :: "'f \<Rightarrow> 'f"
  f_lt :: "'f \<Rightarrow> 'f \<Rightarrow> bool"
  f_le :: "'f \<Rightarrow> 'f \<Rightarrow> bool"
  f_of_int :: "int \<Rightarrow> 'f"
  f_lit :: "rat \<Rightarrow> 'f"
  f_sum :: "'f list \<Rightarrow> 'f"
  f_inf :: "'f"
  f_trunc :: "'f \<Rightarrow> int"
  f_total_seconds :: "int \<Rightarrow> 'f"

text \<open>
  \<open>f_lit q\<close> is the float literal written \<open>q\<close> in the source, \<open>f_of_int\<close> the
  conversion of an integer operand, \<open>f_sum\<close> the builtin \<open>sum\<close>, \<open>f_inf\<close> is
  \<open>float('inf')\<close>, \<open>f_trunc\<close> is \<open>int(x)\<close>, \<open>f_total_seconds\<close> is
  \<open>timedelta.total_seconds()\<close> of a duration given in microseconds, and
  \<open>a > b\<close> is \<open>f_lt F b a\<close>, \<open>a >= b\<close> is \<open>f_le F b a\<close>.
\<close>

subsection \<open>Dates\<close>

text \<open>
  A \<open>datetime\<close> is naive and has microsecond resolution: it is the number of
  microseconds since 0001-01-01T00:00:00, and a \<open>timedelta\<close> is a number of
  microseconds. Python bounds both: \<open>timedelta(days=n)\<close> raises OverflowError unless
  \<open>|n| \<le> 999999999\<close>, and a sum that leaves the years 1 to 9999 raises OverflowError.
\<close>

type_synonym datetime = int
type_synonym timedelta = int

datatype error = OverflowError | KeyError | IndexError

text \<open>
  A computation either runs forever (\<open>None\<close>), raises (\<open>Some (Inl e)\<close>) or returns
  (\<open>Some (Inr v)\<close>).
\<close>

type_synonym 'a run = "(error + 'a) option"

definition usec_per_day :: int where
  "usec_per_day = 86400000000"

definition usec_per_hour :: int where
  "usec_per_hour = 3600000000"

definition datetime_max :: datetime where
  "datetime_max = 3652059 * usec_per_day - 1"

definition timedelta_days :: "int \<Rightarrow> error + timedelta" where
  "timedelta_days n =
     (if - 999999999 \<le> n \<and> n \<le> 999999999 then Inr (n * usec_per_day) else Inl OverflowError)"

definition datetime_add :: "datetime \<Rightarrow> timedelta \<Rightarrow> error + datetime" where
  "datetime_add d td =
     (if 0 \<le> d + td \<and> d + td \<le> datetime_max then Inr (d + td) else Inl OverflowError)"

text \<open>\<open>d + timedelta(days=n)\<close>\<close>

definition add_days :: "datetime \<Rightarrow> int \<Rightarrow> error + datetime" where
  "add_days d n = (case timedelta_days n of Inl e \<Rightarrow> Inl e | Inr td \<Rightarrow> datetime_add d td)"

subsection \<open>Systems, rails and the galaxy\<close>

datatype RailClass = RFC_A | RFC_B | RFC_C | RFC_D

datatype CivilizationTier =
  PRIMITIVE | INDUSTRIAL | NUCLEAR | FUSION | ANTIMATTER | RAIL_AGE | SINGULARITY | TRANSCENDENT

fun tier_value :: "CivilizationTier \<Rightarrow> int" where
  "tier_value PRIMITIVE = 0"
| "tier_value INDUSTRIAL = 1"
| "tier_value NUCLEAR = 2"
| "tier_value FUSION = 3"
| "tier_value ANTIMATTER = 4"
| "tier_value RAIL_AGE = 5"
| "tier_value SINGULARITY = 6"
| "tier_value TRANSCENDENT = 7"

record 'f Coordinate =
  coord_x :: 'f
  coord_y :: 'f
  coord_z :: 'f

text \<open>
  A Python \<open>dict\<close> keeps insertion order: it is an association list whose keys are
  distinct; \<open>d.values()\<close> is \<open>map snd d\<close>, and \<open>d[k] = v\<close> replaces the value of a
  key that is present where it stands and appends a new key at the end.
\<close>

type_synonym ('k, 'v) dict = "('k \<times> 'v) list"

definition dict_values :: "('k, 'v) dict \<Rightarrow> 'v list" where
  "dict_values d = map snd d"

definition dict_keys :: "('k, 'v) dict \<Rightarrow> 'k list" where
  "dict_keys d = map fst d"

fun dict_set :: "('k, 'v) dict \<Rightarrow> 'k \<Rightarrow> 'v \<Rightarrow> ('k, 'v) dict" where
  "dict_set [] k v = [(k, v)]"
| "dict_set ((k', v') # d) k v = (if k' = k then (k, v) # d else (k', v') # dict_set d k v)"

text \<open>Of a planet and of a system, the fields that the functions below read.\<close>

record 'f Planet =
  population_planet :: int
  resources :: "(string, 'f) dict"

record 'f System =
  id_system :: string
  coord :: "'f Coordinate"
  planets :: "'f Planet list"
  population :: int
  tech_level :: CivilizationTier
  gravitium_deposits :: 'f

record 'f Rail =
  id_rail :: string
  from_system :: string
  to_system :: string
  rail_class :: RailClass
  length_ly :: 'f
  construction_date :: datetime
  interval_days :: int
  next_fire :: datetime
  gravitium_cost :: 'f
  max_capacity :: 'f

record Schedule =
  rail_id :: string
  departures :: "datetime list"
  transit_time :: timedelta

record 'f Galaxy =
  systems :: "(string, 'f System) dict"
  rails :: "(string, 'f Rail) dict"

subsection \<open>Galaxy.get_route\<close>

text \<open>
  The inner \<open>for rail in self.rails.values()\<close> loop of \<open>get_route\<close>, for the queue entry
  \<open>(current, path)\<close>. \<open>Inl p\<close> is the early \<open>return path + [next_system]\<close>;
  \<open>Inr (visited, queue)\<close> is the state after the loop has run to its end.
\<close>

fun scan_rails ::
  "'f Rail list \<Rightarrow> string \<Rightarrow> string list \<Rightarrow> string \<Rightarrow> string set \<Rightarrow> (string \<times> string list) list
    \<Rightarrow> string list + (string set \<times> (string \<times> string list) list)" where
  "scan_rails [] current path target visited queue = Inr (visited, queue)"
| "scan_rails (rail # rest) current path target visited queue =
     (if from_system rail = current then
        (let next_system = to_system rail in
         if next_system = target then Inl (path @ [next_system])
         else if next_system \<notin> visited then
           scan_rails rest current path target (insert next_system visited)
             (queue @ [(next_system, path @ [next_system])])
         else scan_rails rest current path target visited queue)
      else scan_rails rest current path target visited queue)"

text \<open>The systems that the rails lead to; every newly visited system is one of them.\<close>

definition rail_targets :: "'f Rail list \<Rightarrow> string set" where
  "rail_targets rs = to_system ` set rs"

lemma scan_rails_measure:
  "scan_rails rs current path target visited queue = Inr (visited', queue') \<Longrightarrow>
   set rs \<subseteq> set all_rails \<Longrightarrow>
   card (rail_targets all_rails - visited') + length queue'
     \<le> card (rail_targets all_rails - visited) + length queue"
proof (induction rs arbitrary: visited queue)
  case Nil
  then show ?case by simp
next
  case (Cons rail rest)
  let ?T = "rail_targets all_rails"
  let ?w = "to_system rail"
  show ?case
  proof (cases "from_system rail = current \<and> ?w \<noteq> target \<and> ?w \<notin> visited")
    case False
    with Cons show ?thesis by (auto simp: Let_def split: if_splits)
  next
    case True
    with Cons.prems have rec:
      "scan_rails rest current path target (insert ?w visited)
         (queue @ [(?w, path @ [?w])]) = Inr (visited', queue')"
      by (simp add: Let_def)
    have fin: "finite (?T - visited)" by (simp add: rail_targets_def)
    have mem: "?w \<in> ?T - visited"
      using True Cons.prems(2) by (auto simp: rail_targets_def)
    have eq: "?T - insert ?w visited = (?T - visited) - {?w}" by auto
    have "card (?T - insert ?w visited) + 1 = card (?T - visited)"
      unfolding eq using card_Suc_Diff1[OF fin mem] by simp
    moreover from Cons.IH[OF rec] Cons.prems(2)
    have "card (?T - visited') + length queue'
            \<le> card (?T - insert ?w visited) + (length queue + 1)"
      by simp
    ultimately show ?thesis by linarith
  qed
qed

text \<open>
  The \<open>while queue:\<close> loop. It ends: every pass removes one queue entry, and every
  entry added marks a rail target that was not visited before.
\<close>

function bfs_loop ::
  "'f Rail list \<Rightarrow> string \<Rightarrow> string set \<Rightarrow> (string \<times> string list) list \<Rightarrow> string list option" where
  "bfs_loop rs target visited [] = None"
| "bfs_loop rs target visited ((current, path) # queue) =
     (case scan_rails rs current path target visited queue of
        Inl p \<Rightarrow> Some p
      | Inr (visited', queue') \<Rightarrow> bfs_loop rs target visited' queue')"
  by pat_completeness auto
termination
proof (relation "measure (\<lambda>(rs, target, visited, queue).
                   card (rail_targets rs - visited) + length queue)", goal_cases)
  case 1
  show ?case by simp
next
  case (2 rs target visited current path queue x2 visited' queue')
  then have "scan_rails rs current path target visited queue = Inr (visited', queue')"
    by simp
  from scan_rails_measure[OF this subset_refl] 2(2) show ?case
    by auto
qed

definition get_route :: "'f Galaxy \<Rightarrow> string \<Rightarrow> string \<Rightarrow> string list option" where
  "get_route galaxy from_sys to_sys =
     (if from_sys = to_sys then Some [from_sys]
      else bfs_loop (dict_values (rails galaxy)) to_sys {from_sys} [(from_sys, [from_sys])])"

section \<open>Schedules and timed routes (core/models.py, generators/schedgen.py)\<close>

subsection \<open>Advancing by the firing interval\<close>

text \<open>
  The loops \<open>while current < bound: current += timedelta(days=interval)\<close> and
  \<open>while current <= bound: current += timedelta(days=interval)\<close>. With an interval
  of zero days they never end; the result \<open>None\<close> stands for that.
\<close>

partial_function (option) advance_lt :: "int \<Rightarrow> datetime \<Rightarrow> datetime \<Rightarrow> datetime run" where
  "advance_lt interval current bound =
     (if current < bound then
        (case add_days current interval of
           Inl e \<Rightarrow> Some (Inl e)
         | Inr current' \<Rightarrow> advance_lt interval current' bound)
      else Some (Inr current))"

partial_function (option) advance_le :: "int \<Rightarrow> datetime \<Rightarrow> datetime \<Rightarrow> datetime run" where
  "advance_le interval current bound =
     (if current \<le> bound then
        (case add_days current interval of
           Inl e \<Rightarrow> Some (Inl e)
         | Inr current' \<Rightarrow> advance_le interval current' bound)
      else Some (Inr current))"

text \<open>
  The loop \<open>for _ in range(count): departures.append(current); current += timedelta(...)\<close>.
  The sum is computed after the last append as well, and may raise there.
\<close>

fun take_departures :: "nat \<Rightarrow> int \<Rightarrow> datetime \<Rightarrow> datetime list \<Rightarrow> error + datetime list" where
  "take_departures 0 interval current deps = Inr deps"
| "take_departures (Suc n) interval current deps =
     (case add_days current interval of
        Inl e \<Rightarrow> Inl e
      | Inr current' \<Rightarrow> take_departures n interval current' (deps @ [current]))"

subsection \<open>Rail.next_departures\<close>

definition next_departures :: "'f Rail \<Rightarrow> datetime \<Rightarrow> int \<Rightarrow> datetime list run" where
  "next_departures rail from_time count =
     (case advance_lt (interval_days rail) (next_fire rail) from_time of
        None \<Rightarrow> None
      | Some (Inl e) \<Rightarrow> Some (Inl e)
      | Some (Inr current) \<Rightarrow> Some (take_departures (nat count) (interval_days rail) current []))"

subsection \<open>ScheduleGenerator.generate_rail_schedule\<close>

text \<open>The loop \<open>while current_date <= end_date: departures.append(current_date); ...\<close>\<close>

partial_function (option) collect_until ::
  "int \<Rightarrow> datetime \<Rightarrow> datetime \<Rightarrow> datetime list \<Rightarrow> datetime list run" where
  "collect_until interval current_date end_date deps =
     (if current_date \<le> end_date then
        (case add_days current_date interval of
           Inl e \<Rightarrow> Some (Inl e)
         | Inr current' \<Rightarrow> collect_until interval current' end_date (deps @ [current_date]))
      else Some (Inr deps))"

definition generate_rail_schedule :: "'f Rail \<Rightarrow> datetime \<Rightarrow> int \<Rightarrow> Schedule run" where
  "generate_rail_schedule rail start_date duration_days =
     (case advance_lt (interval_days rail) start_date (next_fire rail) of
        None \<Rightarrow> None
      | Some (Inl e) \<Rightarrow> Some (Inl e)
      | Some (Inr current_date) \<Rightarrow>
          (case add_days start_date duration_days of
             Inl e \<Rightarrow> Some (Inl e)
           | Inr end_date \<Rightarrow>
               (case collect_until (interval_days rail) current_date end_date [] of
                  None \<Rightarrow> None
                | Some (Inl e) \<Rightarrow> Some (Inl e)
                | Some (Inr deps) \<Rightarrow>
                    Some (Inr \<lparr>rail_id = id_rail rail, departures = deps,
                               transit_time = usec_per_hour\<rparr>))))"

subsection \<open>ScheduleGenerator.get_next_departures\<close>

definition get_next_departures :: "'f Rail \<Rightarrow> datetime \<Rightarrow> int \<Rightarrow> datetime list run" where
  "get_next_departures rail after_date count =
     (case advance_le (interval_days rail) (next_fire rail) after_date of
        None \<Rightarrow> None
      | Some (Inl e) \<Rightarrow> Some (Inl e)
      | Some (Inr current_date) \<Rightarrow>
          Some (take_departures (nat count) (interval_days rail) current_date []))"

subsection \<open>ScheduleGenerator.find_route_schedule\<close>

text \<open>
  The search \<open>for r in galaxy.rails.values(): if r.from_system == from_sys and
  r.to_system == to_sys: rail = r; break\<close>.
\<close>

fun find_rail :: "'f Rail list \<Rightarrow> string \<Rightarrow> string \<Rightarrow> 'f Rail option" where
  "find_rail [] from_sys to_sys = None"
| "find_rail (r # rest) from_sys to_sys =
     (if from_system r = from_sys \<and> to_system r = to_sys then Some r
      else find_rail rest from_sys to_sys)"



subsection \<open>ScheduleGenerator.find_optimal_departure_time\<close>

text \<open>The loop \<open>for departure in departures\<close> that keeps the closest departure.\<close>

fun closest_departure ::
  "'f float_ops \<Rightarrow> datetime list \<Rightarrow> datetime \<Rightarrow> datetime \<Rightarrow> datetime option \<Rightarrow> 'f
    \<Rightarrow> datetime option" where
  "closest_departure F [] end_search preferred_time best_departure best_diff = best_departure"
| "closest_departure F (departure # rest) end_search preferred_time best_departure best_diff =
     (if departure \<le> end_search then
        (let diff = f_abs F (f_total_seconds F (departure - preferred_time)) in
         if f_lt F diff best_diff then
           closest_departure F rest end_search preferred_time (Some departure) diff
         else closest_departure F rest end_search preferred_time best_departure best_diff)
      else closest_departure F rest end_search preferred_time best_departure best_diff)"

definition find_optimal_departure_time ::
  "'f float_ops \<Rightarrow> 'f Galaxy \<Rightarrow> string \<Rightarrow> string \<Rightarrow> datetime \<Rightarrow> int \<Rightarrow> datetime option run" where
  "find_optimal_departure_time F galaxy from_sys to_sys preferred_time flexibility_days =
     (case get_route galaxy from_sys to_sys of
        None \<Rightarrow> Some (Inr None)
      | Some route \<Rightarrow>
          (case route of
             r0 # r1 # _ \<Rightarrow>
               (case find_rail (dict_values (rails galaxy)) r0 r1 of
                  None \<Rightarrow> Some (Inr None)
                | Some first_rail \<Rightarrow>
                    (case timedelta_days flexibility_days of
                       Inl e \<Rightarrow> Some (Inl e)
                     | Inr td \<Rightarrow>
                         (case datetime_add preferred_time (- td) of
                            Inl e \<Rightarrow> Some (Inl e)
                          | Inr start_search \<Rightarrow>
                              (case add_days preferred_time flexibility_days of
                                 Inl e \<Rightarrow> Some (Inl e)
                               | Inr end_search \<Rightarrow>
                                   (case get_next_departures first_rail start_search 20 of
                                      None \<Rightarrow> None
                                    | Some (Inl e) \<Rightarrow> Some (Inl e)
                                    | Some (Inr deps) \<Rightarrow>
                                        Some (Inr (closest_departure F deps end_search
                                                     preferred_time None (f_inf F))))))))
           | _ \<Rightarrow> Some (Inr None)))"

section \<open>Cycle detection (core/validators.py)\<close>

text \<open>
  \<open>graph[v]\<close>: the adjacency list built from the rails, in the order of the rails; a
  \<open>defaultdict\<close> gives the empty list for a system without outgoing rails.
\<close>

definition successors :: "'f Rail list \<Rightarrow> string \<Rightarrow> string list" where
  "successors rs v = map to_system (filter (\<lambda>rail. from_system rail = v) rs)"

text \<open>
  The variables that \<open>strongconnect\<close> shares with \<open>detect_loops\<close>. The Python list
  \<open>stack\<close> is kept top first: \<open>stack.append(v)\<close> is \<open>v # stack\<close>.
\<close>

record tarjan_state =
  index :: nat
  stack :: "string list"
  indices :: "string \<rightharpoonup> nat"
  lowlinks :: "string \<rightharpoonup> nat"
  on_stack :: "string set"
  sccs :: "string list list"

text \<open>The first five statements of \<open>strongconnect(v)\<close>.\<close>

definition enter :: "string \<Rightarrow> tarjan_state \<Rightarrow> tarjan_state" where
  "enter v st =
     st\<lparr>indices := (indices st)(v \<mapsto> index st),
        lowlinks := (lowlinks st)(v \<mapsto> index st),
        index := index st + 1,
        stack := v # stack st,
        on_stack := insert v (on_stack st)\<rparr>"

text \<open>
  \<open>lowlinks[v] = min(lowlinks[v], other[w])\<close>, where \<open>other\<close> is \<open>lowlinks\<close> or
  \<open>indices\<close>; a missing key raises KeyError.
\<close>

definition lower_link ::
  "(tarjan_state \<Rightarrow> string \<rightharpoonup> nat) \<Rightarrow> string \<Rightarrow> string \<Rightarrow> tarjan_state \<Rightarrow> error + tarjan_state" where
  "lower_link other v w st =
     (case lowlinks st v of
        None \<Rightarrow> Inl KeyError
      | Some lv \<Rightarrow>
          (case other st w of
             None \<Rightarrow> Inl KeyError
           | Some ow \<Rightarrow> Inr (st\<lparr>lowlinks := (lowlinks st)(v \<mapsto> min lv ow)\<rparr>)))"

text \<open>
  The loop \<open>while True: w = stack.pop(); on_stack.remove(w); scc.append(w);
  if w == v: break\<close>. Popping from an empty stack raises IndexError.
\<close>

fun pop_scc ::
  "string \<Rightarrow> string list \<Rightarrow> string set \<Rightarrow> string list
    \<Rightarrow> error + (string list \<times> string set \<times> string list)" where
  "pop_scc v [] on_stk scc = Inl IndexError"
| "pop_scc v (w # rest) on_stk scc =
     (if w \<notin> on_stk then Inl KeyError
      else if w = v then Inr (rest, on_stk - {w}, scc @ [w])
      else pop_scc v rest (on_stk - {w}) (scc @ [w]))"

text \<open>The statements of \<open>strongconnect(v)\<close> after the loop over the successors.\<close>

definition finish :: "string \<Rightarrow> tarjan_state \<Rightarrow> error + tarjan_state" where
  "finish v st =
     (case lowlinks st v of
        None \<Rightarrow> Inl KeyError
      | Some lv \<Rightarrow>
          (case indices st v of
             None \<Rightarrow> Inl KeyError
           | Some iv \<Rightarrow>
               if lv = iv then
                 (case pop_scc v (stack st) (on_stack st) [] of
                    Inl e \<Rightarrow> Inl e
                  | Inr (stk, on_stk, scc) \<Rightarrow>
                      Inr (st\<lparr>stack := stk, on_stack := on_stk,
                              sccs := (if length scc > 1 then sccs st @ [scc] else sccs st)\<rparr>))
               else Inr st))"

text \<open>
  \<open>strongconnect\<close> and its loop \<open>for w in graph[v]\<close>. The first argument bounds the
  depth of the recursion; \<open>None\<close> means that the bound was too small.
\<close>

fun strongconnect :: "nat \<Rightarrow> (string \<Rightarrow> string list) \<Rightarrow> string \<Rightarrow> tarjan_state \<Rightarrow> tarjan_state run"
  and visit_successors ::
    "nat \<Rightarrow> (string \<Rightarrow> string list) \<Rightarrow> string \<Rightarrow> string list \<Rightarrow> tarjan_state \<Rightarrow> tarjan_state run" where
  "strongconnect 0 graph v st = None"
| "strongconnect (Suc depth) graph v st =
     (case visit_successors depth graph v (graph v) (enter v st) of
        None \<Rightarrow> None
      | Some (Inl e) \<Rightarrow> Some (Inl e)
      | Some (Inr st') \<Rightarrow> Some (finish v st'))"
| "visit_successors depth graph v [] st = Some (Inr st)"
| "visit_successors depth graph v (w # ws) st =
     (if w \<notin> dom (indices st) then
        (case strongconnect depth graph w st of
           None \<Rightarrow> None
         | Some (Inl e) \<Rightarrow> Some (Inl e)
         | Some (Inr st') \<Rightarrow>
             (case lower_link lowlinks v w st' of
                Inl e \<Rightarrow> Some (Inl e)
              | Inr st'' \<Rightarrow> visit_successors depth graph v ws st''))
      else if w \<in> on_stack st then
        (case lower_link indices v w st of
           Inl e \<Rightarrow> Some (Inl e)
         | Inr st' \<Rightarrow> visit_successors depth graph v ws st')
      else visit_successors depth graph v ws st)"

text \<open>
  The loop \<open>for node in all_nodes: if node not in indices: strongconnect(node)\<close>.
\<close>

fun visit_all :: "nat \<Rightarrow> (string \<Rightarrow> string list) \<Rightarrow> string list \<Rightarrow> tarjan_state \<Rightarrow> tarjan_state run" where
  "visit_all depth graph [] st = Some (Inr st)"
| "visit_all depth graph (node # nodes) st =
     (if node \<notin> dom (indices st) then
        (case strongconnect depth graph node st of
           None \<Rightarrow> None
         | Some (Inl e) \<Rightarrow> Some (Inl e)
         | Some (Inr st') \<Rightarrow> visit_all depth graph nodes st')
      else visit_all depth graph nodes st)"

text \<open>
  \<open>all_nodes\<close> is a Python set, filled with the endpoints of the rails in turn. The order
  in which a set is iterated is not specified: it is a parameter \<open>set_order\<close>, which
  maps the sequence of insertions to the sequence of the iteration.
\<close>

definition all_nodes :: "'f Rail list \<Rightarrow> string list" where
  "all_nodes rs = concat (map (\<lambda>rail. [from_system rail, to_system rail]) rs)"

definition initial_state :: tarjan_state where
  "initial_state =
     \<lparr>index = 0, stack = [], indices = Map.empty, lowlinks = Map.empty, on_stack = {},
      sccs = []\<rparr>"

text \<open>
  The depth of the recursion never exceeds the number of systems, so this bound is
  never reached (lemma \<open>detect_loops_returns\<close>); Python's own recursion limit is outside
  the model.
\<close>

definition detect_loops ::
  "(string list \<Rightarrow> string list) \<Rightarrow> 'f Rail list \<Rightarrow> string list list run" where
  "detect_loops set_order rs =
     (case visit_all (Suc (length (all_nodes rs))) (successors rs) (set_order (all_nodes rs))
             initial_state of
        None \<Rightarrow> None
      | Some (Inl e) \<Rightarrow> Some (Inl e)
      | Some (Inr st) \<Rightarrow> Some (Inr (sccs st)))"

section \<open>Schedule offset optimization (generators/railgen.py)\<close>

subsection \<open>RailGenerator.optimize_rail_schedules\<close>

text \<open>
  The grouping loop: \<open>if rail.from_system not in system_rails: system_rails[...] = []\<close>
  and \<open>system_rails[rail.from_system].append(rail)\<close>.
\<close>

definition add_to_system_rails ::
  "(string, 'f Rail list) dict \<Rightarrow> 'f Rail \<Rightarrow> (string, 'f Rail list) dict" where
  "add_to_system_rails system_rails rail =
     (case map_of system_rails (from_system rail) of
        None \<Rightarrow> dict_set system_rails (from_system rail) [rail]
      | Some rs \<Rightarrow> dict_set system_rails (from_system rail) (rs @ [rail]))"

definition group_by_origin :: "'f Rail list \<Rightarrow> (string, 'f Rail list) dict" where
  "group_by_origin rs = foldl add_to_system_rails [] rs"

text \<open>\<open>datetime(3000, 1, 1)\<close>\<close>

definition base_time :: datetime where
  "base_time = 1095362 * usec_per_day"

text \<open>
  The loop \<open>for i, rail in enumerate(rails)\<close> over a sorted group of \<open>n\<close> rails:
  \<open>offset_days = (rail.interval_days * i) // len(rails)\<close>.
\<close>

fun spread_offsets ::
  "nat \<Rightarrow> nat \<Rightarrow> 'f Rail list \<Rightarrow> (string, 'f Rail) dict \<Rightarrow> error + (string, 'f Rail) dict" where
  "spread_offsets n i [] optimized_rails = Inr optimized_rails"
| "spread_offsets n i (rail # rest) optimized_rails =
     (case add_days base_time ((interval_days rail * int i) div int n) of
        Inl e \<Rightarrow> Inl e
      | Inr new_next_fire \<Rightarrow>
          spread_offsets n (Suc i) rest
            (dict_set optimized_rails (id_rail rail) (rail\<lparr>next_fire := new_next_fire\<rparr>)))"

text \<open>The loop \<open>for system_id, rails in system_rails.items()\<close>.\<close>

fun optimize_groups ::
  "(string \<times> 'f Rail list) list \<Rightarrow> (string, 'f Rail) dict \<Rightarrow> error + (string, 'f Rail) dict" where
  "optimize_groups [] optimized_rails = Inr optimized_rails"
| "optimize_groups ((system_id, rs) # groups) optimized_rails =
     (if length rs \<le> 1 then
        optimize_groups groups
          (foldl (\<lambda>d rail. dict_set d (id_rail rail) rail) optimized_rails rs)
      else
        (case spread_offsets (length rs) 0 (sort_key interval_days rs) optimized_rails of
           Inl e \<Rightarrow> Inl e
         | Inr optimized_rails' \<Rightarrow> optimize_groups groups optimized_rails'))"

definition optimize_rail_schedules :: "'f Galaxy \<Rightarrow> error + (string, 'f Rail) dict" where
  "optimize_rail_schedules galaxy =
     optimize_groups (group_by_origin (dict_values (rails galaxy))) []"

section \<open>Rails used in the examples\<close>

text \<open>
  A rail of class RFC-C between two systems, built at time 0, with all float fields
  zero; \<open>day n\<close> is the datetime \<open>n\<close> days after 0001-01-01.
\<close>

definition day :: "int \<Rightarrow> datetime" where
  "day n = n * usec_per_day"

definition example_rail :: "string \<Rightarrow> string \<Rightarrow> string \<Rightarrow> int \<Rightarrow> datetime \<Rightarrow> rat Rail" where
  "example_rail i a b interval nf =
     \<lparr>id_rail = i, from_system = a, to_system = b, rail_class = RFC_C, length_ly = 0,
      construction_date = 0, interval_days = interval, next_fire = nf, gravitium_cost = 0,
      max_capacity = 0\<rparr>"

definition line_galaxy :: "rat Galaxy" where
  "line_galaxy =
     \<lparr>systems = [],
      rails = [(''R1'', example_rail ''R1'' ''A'' ''B'' 5 (day 10)),
               (''R2'', example_rail ''R2'' ''B'' ''C'' 7 (day 3))]\<rparr>"

definition single_rail_galaxy :: "rat Galaxy" where
  "single_rail_galaxy =
     \<lparr>systems = [], rails = [(''R1'', example_rail ''R1'' ''A'' ''B'' 5 (day 10))]\<rparr>"


definition hub_galaxy :: "rat Galaxy" where
  "hub_galaxy =
     \<lparr>systems = [],
      rails = [(''R1'', example_rail ''R1'' ''A'' ''B'' 7 (day 10)),
               (''R2'', example_rail ''R2'' ''A'' ''C'' 3 (day 4)),
               (''R3'', example_rail ''R3'' ''B'' ''C'' 5 (day 6))]\<rparr>"

text \<open>
  An interpretation of the float operations by exact rational arithmetic with an
  infinity, used to run the definitions on the examples. The square root is exact on the
  squares of natural numbers.
\<close>

datatype xfloat = Fin rat | PosInf

fun x_lift :: "(rat \<Rightarrow> rat) \<Rightarrow> xfloat \<Rightarrow> xfloat" where
  "x_lift f (Fin a) = Fin (f a)"
| "x_lift f PosInf = PosInf"

fun x_lift2 :: "(rat \<Rightarrow> rat \<Rightarrow> rat) \<Rightarrow> xfloat \<Rightarrow> xfloat \<Rightarrow> xfloat" where
  "x_lift2 f (Fin a) (Fin b) = Fin (f a b)"
| "x_lift2 f a b = PosInf"

fun x_lt :: "xfloat \<Rightarrow> xfloat \<Rightarrow> bool" where
  "x_lt (Fin a) (Fin b) = (a < b)"
| "x_lt (Fin a) PosInf = True"
| "x_lt PosInf b = False"

fun x_le :: "xfloat \<Rightarrow> xfloat \<Rightarrow> bool" where
  "x_le (Fin a) (Fin b) = (a \<le> b)"
| "x_le a PosInf = True"
| "x_le PosInf (Fin b) = False"

fun sqrt_search :: "nat \<Rightarrow> nat \<Rightarrow> nat" where
  "sqrt_search n 0 = 0"
| "sqrt_search n (Suc k) = (if Suc k * Suc k \<le> n then Suc k else sqrt_search n k)"

fun x_trunc :: "xfloat \<Rightarrow> int" where
  "x_trunc (Fin a) = (if 0 \<le> a then \<lfloor>a\<rfloor> else \<lceil>a\<rceil>)"
| "x_trunc PosInf = 0"

definition exact_ops :: "xfloat float_ops" where
  "exact_ops =
     \<lparr>f_add = x_lift2 (+), f_sub = x_lift2 (-), f_mul = x_lift2 (*), f_div = x_lift2 (/),
      f_pow = (\<lambda>a n. x_lift (\<lambda>q. q ^ n) a),
      f_sqrt = x_lift (\<lambda>q. of_nat (sqrt_search (nat \<lfloor>q\<rfloor>) (nat \<lfloor>q\<rfloor>))),
      f_abs = x_lift abs, f_lt = x_lt, f_le = x_le,
      f_of_int = (\<lambda>i. Fin (of_int i)), f_lit = Fin,
      f_sum = (\<lambda>xs. foldl (x_lift2 (+)) (Fin 0) xs),
      f_inf = PosInf, f_trunc = x_trunc,
      f_total_seconds = (\<lambda>td. Fin (of_int td / 1000000))\<rparr>"




definition daily_galaxy :: "xfloat Galaxy" where
  "daily_galaxy =
     \<lparr>systems = [],
      rails = [(''R1'', \<lparr>id_rail = ''R1'', from_system = ''A'', to_system = ''B'',
                         rail_class = RFC_A, length_ly = Fin 0, construction_date = 0,
                         interval_days = 1, next_fire = day 0, gravitium_cost = Fin 0,
                         max_capacity = Fin 0\<rparr>)]\<rparr>"

section \<open>Specification of routes\<close>

text \<open>
  The directed rail graph has an edge from \<open>a\<close> to \<open>b\<close> for every rail from \<open>a\<close> to
  \<open>b\<close>. A path is a non-empty sequence of systems whose consecutive members are joined
  by an edge; it has one hop less than it has members.
\<close>

definition rail_edge :: "'f Rail list \<Rightarrow> string \<Rightarrow> string \<Rightarrow> bool" where
  "rail_edge rs a b \<longleftrightarrow> (\<exists>r \<in> set rs. from_system r = a \<and> to_system r = b)"

fun rail_path :: "'f Rail list \<Rightarrow> string list \<Rightarrow> bool" where
  "rail_path rs [] = False"
| "rail_path rs [a] = True"
| "rail_path rs (a # b # p) = (rail_edge rs a b \<and> rail_path rs (b # p))"

definition route_between :: "'f Rail list \<Rightarrow> string \<Rightarrow> string \<Rightarrow> string list \<Rightarrow> bool" where
  "route_between rs a b p \<longleftrightarrow> rail_path rs p \<and> hd p = a \<and> last p = b"


section \<open>Specification of firings and timed routes\<close>

text \<open>
  A rail fires at \<open>next_fire\<close> and then every \<open>interval_days\<close> days. The next firing
  after a time cursor is the earliest firing that is strictly later than the cursor.
  A timed route over a path departs on each hop with the next firing after the cursor of
  the first rail found for the hop, moves the cursor to one hour after that firing, and
  ends with the destination and the last cursor.
\<close>

definition firing :: "'f Rail \<Rightarrow> datetime \<Rightarrow> bool" where
  "firing rail d \<longleftrightarrow> (\<exists>k::nat. d = next_fire rail + int k * (interval_days rail * usec_per_day))"




text \<open>
  The flexibility window of \<open>find_optimal_departure_time\<close> as the code scans it: open
  at \<open>preferred_time - flexibility_days\<close>, closed at \<open>preferred_time + flexibility_days\<close>.
\<close>

definition in_window :: "datetime \<Rightarrow> int \<Rightarrow> datetime \<Rightarrow> bool" where
  "in_window preferred_time flexibility_days d \<longleftrightarrow>
     preferred_time - flexibility_days * usec_per_day < d \<and>
     d \<le> preferred_time + flexibility_days * usec_per_day"




section \<open>Specification of the schedule offsets\<close>

text \<open>The rails that leave a system, in the order of the dictionary, sorted by interval.\<close>

definition origin_group :: "'f Rail list \<Rightarrow> string \<Rightarrow> 'f Rail list" where
  "origin_group rs s = sort_key interval_days (filter (\<lambda>r. from_system r = s) rs)"

text \<open>The rail written for position \<open>i\<close> of a sorted group \<open>g\<close>.\<close>

definition respaced :: "'f Rail list \<Rightarrow> nat \<Rightarrow> 'f Rail" where
  "respaced g i =
     (if length g \<le> 1 then g ! i
      else (g ! i)\<lparr>next_fire :=
              base_time + ((interval_days (g ! i) * int i) div int (length g)) * usec_per_day\<rparr>)"


text \<open>
  Auxiliary: a dictionary after a list of assignments \<open>d[k] = v\<close>, and the assignments
  that the optimization makes for one group and for a sorted group from position \<open>i\<close>.
\<close>

definition writes :: "('k \<times> 'v) list \<Rightarrow> ('k, 'v) dict \<Rightarrow> ('k, 'v) dict" where
  "writes ws d = foldl (\<lambda>d (k, v). dict_set d k v) d ws"


fun spread :: "nat \<Rightarrow> nat \<Rightarrow> 'f Rail list \<Rightarrow> (string \<times> 'f Rail) list" where
  "spread n i [] = []"
| "spread n i (rail # rest) =
     (id_rail rail,
      rail\<lparr>next_fire := base_time + ((interval_days rail * int i) div int n) * usec_per_day\<rparr>)
     # spread n (Suc i) rest"


fun group_writes :: "string \<times> 'f Rail list \<Rightarrow> (string \<times> 'f Rail) list" where
  "group_writes (system_id, rs) =
     (if length rs \<le> 1 then map (\<lambda>rail. (id_rail rail, rail)) rs
      else spread (length rs) 0 (sort_key interval_days rs))"


section \<open>Routes\<close>

text \<open>
  C10. For every galaxy and every system identifier \<open>s\<close>, \<open>get_route(s, s)\<close> returns
  the one-element path \<open>[s]\<close>, whether or not \<open>s\<close> is a system of the galaxy or lies on
  a rail; the absent value is never returned when origin and destination coincide.
\<close>

theorem get_route_same_system:
  "get_route galaxy s s = Some [s]"
  by (simp add: get_route_def)

subsection \<open>Breadth-first search finds a shortest route\<close>

lemma rail_path_snoc:
  "rail_path rs p \<Longrightarrow> rail_edge rs (last p) w \<Longrightarrow> rail_path rs (p @ [w])"
  by (induction rs p rule: rail_path.induct) auto

lemma rail_path_butlast:
  "rail_path rs (p @ [w]) \<Longrightarrow> p \<noteq> [] \<Longrightarrow> rail_path rs p \<and> rail_edge rs (last p) w"
  by (induction rs p rule: rail_path.induct) auto

lemma route_between_snoc:
  "route_between rs s u p \<Longrightarrow> rail_edge rs u w \<Longrightarrow> route_between rs s w (p @ [w])"
  unfolding route_between_def using rail_path_snoc[of rs p w]
  by (cases p) auto

lemma route_between_split:
  assumes "route_between rs s x q" "2 \<le> length q"
  shows "\<exists>q' y. q = q' @ [x] \<and> route_between rs s y q' \<and> rail_edge rs y x"
proof -
  from assms(2) obtain q' z where q: "q = q' @ [z]" "q' \<noteq> []"
  proof (cases q rule: rev_cases)
    case Nil
    with assms(2) show ?thesis by simp
  next
    case (snoc ys y)
    with assms(2) have "ys \<noteq> []" by auto
    with snoc that show ?thesis by blast
  qed
  with assms have "z = x" by (simp add: route_between_def)
  moreover from assms q rail_path_butlast[of rs q' z]
  have "rail_path rs q'" "rail_edge rs (last q') z" by (auto simp: route_between_def)
  moreover from assms q have "hd q' = s" by (auto simp: route_between_def)
  ultimately show ?thesis using q by (auto simp: route_between_def)
qed

lemma route_between_length: "route_between rs s x q \<Longrightarrow> 1 \<le> length q"
  by (cases q) (auto simp: route_between_def)

lemma route_between_singleton: "route_between rs s x q \<Longrightarrow> length q \<le> 1 \<Longrightarrow> x = s"
  by (cases q) (auto simp: route_between_def)

lemma scan_rails_Inl:
  "scan_rails rs current path target visited queue = Inl p \<Longrightarrow>
   p = path @ [target] \<and> rail_edge rs current target"
  by (induction rs arbitrary: visited queue)
     (auto simp: Let_def rail_edge_def split: if_splits)

lemma scan_rails_Inr:
  "scan_rails rs current path target visited queue = Inr (visited', queue') \<Longrightarrow>
   \<not> rail_edge rs current target \<and>
   (\<forall>w. rail_edge rs current w \<longrightarrow> w \<in> visited') \<and>
   (\<exists>news. queue' = queue @ map (\<lambda>w. (w, path @ [w])) news \<and> visited' = visited \<union> set news \<and>
      (\<forall>w \<in> set news. rail_edge rs current w \<and> w \<notin> visited))"
proof (induction rs arbitrary: visited queue)
  case Nil
  then show ?case by (auto simp: rail_edge_def intro: exI[of _ "[]"])
next
  case (Cons rail rest)
  let ?w = "to_system rail"
  show ?case
  proof (cases "from_system rail = current")
    case False
    with Cons.prems have "scan_rails rest current path target visited queue = Inr (visited', queue')"
      by simp
    from Cons.IH[OF this] False show ?thesis
      by (auto simp: rail_edge_def)
  next
    case True
    note frm = this
    show ?thesis
    proof (cases "?w \<in> visited")
      case True
      with frm Cons.prems have nt: "?w \<noteq> target"
        and rec: "scan_rails rest current path target visited queue = Inr (visited', queue')"
        by (auto simp: Let_def split: if_splits)
      from Cons.IH[OF rec] obtain news where
        n: "\<not> rail_edge rest current target" "\<forall>w. rail_edge rest current w \<longrightarrow> w \<in> visited'"
           "queue' = queue @ map (\<lambda>w. (w, path @ [w])) news" "visited' = visited \<union> set news"
           "\<forall>w \<in> set news. rail_edge rest current w \<and> w \<notin> visited"
        by blast
      have "\<not> rail_edge (rail # rest) current target"
        using n(1) nt by (auto simp: rail_edge_def)
      moreover have "\<forall>w. rail_edge (rail # rest) current w \<longrightarrow> w \<in> visited'"
        using n(2,4) True by (auto simp: rail_edge_def)
      moreover have "\<forall>w \<in> set news. rail_edge (rail # rest) current w \<and> w \<notin> visited"
        using n(5) by (auto simp: rail_edge_def)
      ultimately show ?thesis using n(3,4) by blast
    next
      case False
      with frm Cons.prems have nt: "?w \<noteq> target"
        and rec: "scan_rails rest current path target (insert ?w visited)
                    (queue @ [(?w, path @ [?w])]) = Inr (visited', queue')"
        by (auto simp: Let_def split: if_splits)
      from Cons.IH[OF rec] obtain news where
        n: "\<not> rail_edge rest current target" "\<forall>w. rail_edge rest current w \<longrightarrow> w \<in> visited'"
           "queue' = (queue @ [(?w, path @ [?w])]) @ map (\<lambda>w. (w, path @ [w])) news"
           "visited' = insert ?w visited \<union> set news"
           "\<forall>w \<in> set news. rail_edge rest current w \<and> w \<notin> insert ?w visited"
        by blast
      have "\<not> rail_edge (rail # rest) current target"
        using n(1) nt by (auto simp: rail_edge_def)
      moreover have "\<forall>w. rail_edge (rail # rest) current w \<longrightarrow> w \<in> visited'"
        using n(2,4) by (auto simp: rail_edge_def)
      moreover have "\<forall>w \<in> set (?w # news). rail_edge (rail # rest) current w \<and> w \<notin> visited"
        using n(5) False frm by (auto simp: rail_edge_def)
      moreover have "queue' = queue @ map (\<lambda>w. (w, path @ [w])) (?w # news)"
        using n(3) by simp
      moreover have "visited' = visited \<union> set (?w # news)"
        using n(4) by auto
      ultimately show ?thesis by blast
    qed
  qed
qed

definition bfs_inv ::
  "'f Rail list \<Rightarrow> string \<Rightarrow> string \<Rightarrow> string set \<Rightarrow> (string \<times> string list) list \<Rightarrow> bool" where
  "bfs_inv rs s t V Q \<longleftrightarrow>
     s \<in> V \<and> t \<notin> V \<and>
     (\<forall>(u, p) \<in> set Q. route_between rs s u p \<and> u \<in> V \<and>
        (\<forall>q. route_between rs s u q \<longrightarrow> length p \<le> length q)) \<and>
     sorted (map (\<lambda>e. length (snd e)) Q) \<and>
     (\<forall>e \<in> set Q. length (snd e) \<le> Suc (length (snd (hd Q)))) \<and>
     (\<forall>v \<in> V. v \<notin> fst ` set Q \<longrightarrow> (\<forall>w. rail_edge rs v w \<longrightarrow> w \<in> V)) \<and>
     (Q \<noteq> [] \<longrightarrow> (\<forall>x q. route_between rs s x q \<and> length q \<le> length (snd (hd Q)) \<longrightarrow> x \<in> V))"

lemma bfs_inv_init: "s \<noteq> t \<Longrightarrow> bfs_inv rs s t {s} [(s, [s])]"
proof -
  have "route_between rs s s [s]" by (simp add: route_between_def)
  moreover assume "s \<noteq> t"
  ultimately show ?thesis
    unfolding bfs_inv_def
    using route_between_length[of rs s] route_between_singleton[of rs s]
    by auto
qed

lemma bfs_inv_found:
  assumes inv: "bfs_inv rs s t V ((u, p) # Q)" and e: "rail_edge rs u t" and st: "s \<noteq> t"
  shows "route_between rs s t (p @ [t]) \<and> (\<forall>q. route_between rs s t q \<longrightarrow> length (p @ [t]) \<le> length q)"
proof
  from inv have up: "route_between rs s u p" by (auto simp: bfs_inv_def)
  from route_between_snoc[OF up e] show "route_between rs s t (p @ [t])" .
  show "\<forall>q. route_between rs s t q \<longrightarrow> length (p @ [t]) \<le> length q"
  proof (intro allI impI, rule ccontr)
    fix q assume q: "route_between rs s t q" and "\<not> length (p @ [t]) \<le> length q"
    then have len: "length q \<le> length p" by simp
    have "2 \<le> length q"
      using route_between_singleton[OF q] route_between_length[OF q] st by (cases "length q \<le> 1") auto
    from route_between_split[OF q this] obtain q' y where
      q': "q = q' @ [t]" "route_between rs s y q'" "rail_edge rs y t" by blast
    with len have l': "length q' < length p" by simp
    from l' have "length q' \<le> length (snd (hd ((u, p) # Q)))" by simp
    with inv q'(2) have yV: "y \<in> V" unfolding bfs_inv_def by blast
    have "y \<notin> fst ` set ((u, p) # Q)"
    proof
      assume "y \<in> fst ` set ((u, p) # Q)"
      then obtain py where mem: "(y, py) \<in> set ((u, p) # Q)" by force
      with inv have min: "length py \<le> length q'" using q'(2) by (fastforce simp: bfs_inv_def)
      from inv have "sorted (map (\<lambda>e. length (snd e)) ((u, p) # Q))" by (simp add: bfs_inv_def)
      with mem have "length p \<le> length py" by auto
      with min l' show False by simp
    qed
    with inv yV q'(3) have "t \<in> V" unfolding bfs_inv_def by blast
    with inv show False by (simp add: bfs_inv_def)
  qed
qed

lemma rail_path_closed:
  "rail_path rs p \<Longrightarrow> (\<forall>v w. v \<in> V \<longrightarrow> rail_edge rs v w \<longrightarrow> w \<in> V) \<Longrightarrow> hd p \<in> V \<Longrightarrow> last p \<in> V"
  by (induction rs p rule: rail_path.induct) auto

lemma bfs_inv_empty:
  assumes inv: "bfs_inv rs s t V []"
  shows "\<not> route_between rs s t q"
proof
  assume q: "route_between rs s t q"
  have closed: "\<forall>v w. v \<in> V \<longrightarrow> rail_edge rs v w \<longrightarrow> w \<in> V"
    using inv by (auto simp: bfs_inv_def)
  from q inv rail_path_closed[OF _ closed, of q]
  have "t \<in> V" by (auto simp: route_between_def bfs_inv_def)
  with inv show False by (simp add: bfs_inv_def)
qed

lemma bfs_inv_step:
  assumes inv: "bfs_inv rs s t V ((u, p) # Q)"
    and scan: "scan_rails rs u p t V Q = Inr (V', Q')"
  shows "bfs_inv rs s t V' Q'"
proof -
  from scan_rails_Inr[OF scan] obtain news where
    nt: "\<not> rail_edge rs u t" and succ: "\<And>w. rail_edge rs u w \<Longrightarrow> w \<in> V'"
    and Q': "Q' = Q @ map (\<lambda>w. (w, p @ [w])) news" and V': "V' = V \<union> set news"
    and news: "\<And>w. w \<in> set news \<Longrightarrow> rail_edge rs u w \<and> w \<notin> V"
    by blast
  let ?L = "length p"
  from inv have sV: "s \<in> V" and tV: "t \<notin> V"
    and A: "\<And>v pv. (v, pv) \<in> set ((u, p) # Q) \<Longrightarrow>
              route_between rs s v pv \<and> v \<in> V \<and> (\<forall>q. route_between rs s v q \<longrightarrow> length pv \<le> length q)"
    and srt: "sorted (map (\<lambda>e. length (snd e)) ((u, p) # Q))"
    and spread: "\<And>e. e \<in> set ((u, p) # Q) \<Longrightarrow> length (snd e) \<le> Suc ?L"
    and D: "\<And>v w. v \<in> V \<Longrightarrow> v \<notin> fst ` set ((u, p) # Q) \<Longrightarrow> rail_edge rs v w \<Longrightarrow> w \<in> V"
    and E: "\<And>x q. route_between rs s x q \<Longrightarrow> length q \<le> ?L \<Longrightarrow> x \<in> V"
    unfolding bfs_inv_def by auto
  have up: "route_between rs s u p" using A[of u p] by simp
  have lo: "\<And>e. e \<in> set Q \<Longrightarrow> ?L \<le> length (snd e)" using srt by auto
  have lenQ': "\<And>e. e \<in> set Q' \<Longrightarrow> ?L \<le> length (snd e) \<and> length (snd e) \<le> Suc ?L"
    using lo spread unfolding Q' by auto
  have A': "route_between rs s v pv \<and> v \<in> V' \<and> (\<forall>q. route_between rs s v q \<longrightarrow> length pv \<le> length q)"
    if "(v, pv) \<in> set Q'" for v pv
  proof (cases "(v, pv) \<in> set Q")
    case True
    with A[of v pv] V' show ?thesis by auto
  next
    case False
    with that Q' have vn: "v \<in> set news" and pv: "pv = p @ [v]" by auto
    from news[OF vn] have e: "rail_edge rs u v" and nv: "v \<notin> V" by auto
    have "length pv \<le> length q" if "route_between rs s v q" for q
    proof (rule ccontr)
      assume "\<not> length pv \<le> length q"
      with pv have "length q \<le> ?L" by simp
      from E[OF that this] nv show False by simp
    qed
    with route_between_snoc[OF up e] vn pv V' show ?thesis by auto
  qed
  have "sorted (map (\<lambda>x. Suc ?L) news)" by (induction news) auto
  then have srt': "sorted (map (\<lambda>e. length (snd e)) Q')"
    using srt spread unfolding Q' by (auto simp: sorted_append comp_def)
  have D': "w \<in> V'" if "v \<in> V'" "v \<notin> fst ` set Q'" "rail_edge rs v w" for v w
  proof (cases "v = u")
    case True
    with that succ show ?thesis by simp
  next
    case False
    from that(2) have "v \<notin> set news" unfolding Q' by force
    with that(1) V' have "v \<in> V" by simp
    moreover from that(2) False have "v \<notin> fst ` set ((u, p) # Q)" unfolding Q' by auto
    ultimately have "w \<in> V" using D that(3) by blast
    with V' show ?thesis by simp
  qed
  have E': "x \<in> V'" if ne: "Q' \<noteq> []" and q: "route_between rs s x q"
    and len: "length q \<le> length (snd (hd Q'))" for x q
  proof (cases "length q \<le> ?L")
    case True
    from E[OF q this] V' show ?thesis by simp
  next
    case False
    from ne have hdmem: "hd Q' \<in> set Q'" by simp
    from lenQ'[OF hdmem] len False have hdL: "length (snd (hd Q')) = Suc ?L" and ql: "length q = Suc ?L"
      by auto
    have allL: "length (snd e) = Suc ?L" if "e \<in> set Q'" for e
    proof -
      from srt' ne that have "length (snd (hd Q')) \<le> length (snd e)"
        by (cases Q') auto
      with lenQ'[OF that] hdL show ?thesis by simp
    qed
    have "1 \<le> ?L" using route_between_length[OF up] .
    with ql have "2 \<le> length q" by simp
    from route_between_split[OF q this] obtain q' y where
      q': "q = q' @ [x]" "route_between rs s y q'" "rail_edge rs y x" by blast
    with ql have l': "length q' = ?L" by simp
    from E[OF q'(2)] l' have yV: "y \<in> V'" using V' by simp
    have "y \<notin> fst ` set Q'"
    proof
      assume "y \<in> fst ` set Q'"
      then obtain py where mem: "(y, py) \<in> set Q'" by force
      from A'[OF mem] q'(2) have "length py \<le> length q'" by blast
      with allL[OF mem] l' show False by simp
    qed
    from D'[OF yV this q'(3)] show ?thesis .
  qed
  have spread': "\<And>e. e \<in> set Q' \<Longrightarrow> length (snd e) \<le> Suc (length (snd (hd Q')))"
  proof -
    fix e assume e: "e \<in> set Q'"
    then have "Q' \<noteq> []" by auto
    then have "hd Q' \<in> set Q'" by simp
    from lenQ'[OF this] lenQ'[OF e] show "length (snd e) \<le> Suc (length (snd (hd Q')))" by simp
  qed
  have tV': "t \<notin> V'" using tV nt news V' by auto
  show ?thesis
    unfolding bfs_inv_def
  proof (intro conjI)
    show "s \<in> V'" using sV V' by simp
    show "t \<notin> V'" by (rule tV')
    show "\<forall>(u, p) \<in> set Q'. route_between rs s u p \<and> u \<in> V' \<and>
            (\<forall>q. route_between rs s u q \<longrightarrow> length p \<le> length q)"
      using A' by blast
    show "sorted (map (\<lambda>e. length (snd e)) Q')" by (rule srt')
    show "\<forall>e \<in> set Q'. length (snd e) \<le> Suc (length (snd (hd Q')))"
      using spread' by blast
    show "\<forall>v \<in> V'. v \<notin> fst ` set Q' \<longrightarrow> (\<forall>w. rail_edge rs v w \<longrightarrow> w \<in> V')"
      using D' by blast
    show "Q' \<noteq> [] \<longrightarrow>
            (\<forall>x q. route_between rs s x q \<and> length q \<le> length (snd (hd Q')) \<longrightarrow> x \<in> V')"
      using E' by blast
  qed
qed

lemma bfs_loop_correct:
  "bfs_inv rs s t V Q \<Longrightarrow> s \<noteq> t \<Longrightarrow>
   (case bfs_loop rs t V Q of
      Some p \<Rightarrow> route_between rs s t p \<and> (\<forall>q. route_between rs s t q \<longrightarrow> length p \<le> length q)
    | None \<Rightarrow> (\<forall>q. \<not> route_between rs s t q))"
proof (induction rs t V Q rule: bfs_loop.induct)
  case (1 rs target visited)
  then show ?case using bfs_inv_empty[of rs s target visited] by simp
next
  case (2 rs target visited current path queue)
  show ?case
  proof (cases "scan_rails rs current path target visited queue")
    case (Inl p)
    from scan_rails_Inl[OF Inl] bfs_inv_found[OF "2.prems"(1) _ "2.prems"(2)] Inl
    show ?thesis by simp
  next
    case (Inr vq)
    obtain V' Q' where vq: "vq = (V', Q')" by (cases vq)
    from bfs_inv_step[OF "2.prems"(1) Inr[unfolded vq]]
    have "bfs_inv rs s target V' Q'" .
    from "2.IH"[OF Inr vq[symmetric] this "2.prems"(2)] Inr vq
    show ?thesis by simp
  qed
qed

text \<open>
  C6. For two distinct system identifiers, \<open>get_route\<close> returns a path of the directed
  rail graph from the origin to the destination that has the fewest hops of all such
  paths, and it returns the absent value exactly when no path exists. The search always
  ends (\<open>bfs_loop\<close> is a total function).
\<close>

theorem get_route_shortest:
  assumes "from_sys \<noteq> to_sys"
  shows "case get_route galaxy from_sys to_sys of
           Some route \<Rightarrow>
             route_between (dict_values (rails galaxy)) from_sys to_sys route \<and>
             (\<forall>q. route_between (dict_values (rails galaxy)) from_sys to_sys q
                   \<longrightarrow> length route \<le> length q)
         | None \<Rightarrow> (\<forall>q. \<not> route_between (dict_values (rails galaxy)) from_sys to_sys q)"
  using bfs_loop_correct[OF bfs_inv_init[OF assms] assms, of "dict_values (rails galaxy)"] assms
  by (simp add: get_route_def)

text \<open>
  The examples of the specification: on the line \<open>A \<rightarrow> B \<rightarrow> C\<close> the route from \<open>A\<close> to
  \<open>C\<close> is \<open>[A, B, C]\<close>; with the rail \<open>A \<rightarrow> B\<close> alone there is none.
\<close>

theorem get_route_shortest_witness:
  "''A'' \<noteq> ''C'' \<and>
   get_route line_galaxy ''A'' ''C'' = Some [''A'', ''B'', ''C''] \<and>
   route_between (dict_values (rails line_galaxy)) ''A'' ''C'' [''A'', ''B'', ''C'']"
proof -
  have r: "get_route line_galaxy ''A'' ''C'' = Some [''A'', ''B'', ''C'']"
    by (simp add: get_route_def line_galaxy_def dict_values_def example_rail_def Let_def)
  have ne: "''A'' \<noteq> ''C''" by simp
  from get_route_shortest[OF ne, of line_galaxy] r ne show ?thesis
    by simp
qed

lemma get_route_unreachable:
  "get_route single_rail_galaxy ''A'' ''C'' = None"
  by (simp add: get_route_def single_rail_galaxy_def dict_values_def example_rail_def Let_def)

section \<open>Per-rail schedules\<close>

text \<open>
  C4. The rail of the specification's example fires on day 10 and then every 5 days.
  Queried from day 12 over 15 days, \<open>generate_rail_schedule\<close> returns the days
  12, 17, 22 and 27, none of which is a firing of the rail, where the claim has
  15, 20 and 25: the loop advances from the window start, not from \<open>next_fire\<close>.
  \<open>Rail.next_departures\<close> advances from \<open>next_fire\<close> and returns 15, 20 and 25.
\<close>

theorem generate_rail_schedule_off_progression:
  "generate_rail_schedule (example_rail ''R1'' ''A'' ''B'' 5 (day 10)) (day 12) 15
     = Some (Inr \<lparr>rail_id = ''R1'', departures = [day 12, day 17, day 22, day 27],
                  transit_time = usec_per_hour\<rparr>)
   \<and> next_departures (example_rail ''R1'' ''A'' ''B'' 5 (day 10)) (day 12) 3
     = Some (Inr [day 15, day 20, day 25])"
  by (simp add: generate_rail_schedule_def next_departures_def example_rail_def day_def
      advance_lt.simps collect_until.simps add_days_def timedelta_days_def datetime_add_def
      datetime_max_def usec_per_day_def usec_per_hour_def numeral_eq_Suc)

section \<open>Timed routes\<close>


lemma add_days_Inr: "add_days d n = Inr d' \<Longrightarrow> d' = d + n * usec_per_day"
  by (auto simp: add_days_def timedelta_days_def datetime_add_def split: if_splits sum.splits)

lemma add_days_Inl: "add_days d n = Inl e \<Longrightarrow> e = OverflowError"
  by (auto simp: add_days_def timedelta_days_def datetime_add_def split: if_splits sum.splits)













section \<open>Closest departure in a flexibility window\<close>









lemmas eval_time = get_next_departures_def advance_le.simps add_days_def timedelta_days_def
  datetime_add_def datetime_max_def day_def usec_per_day_def usec_per_hour_def




text \<open>
  Only the first 20 firings after the window start are scanned. A rail that fires
  daily, queried for day 40 with 30 days of flexibility, yields day 30, although the
  rail fires on day 40 itself.
\<close>

lemma find_optimal_departure_time_scans_20_firings:
  "find_optimal_departure_time exact_ops daily_galaxy ''A'' ''B'' (day 40) 30
     = Some (Inr (Some (day 30))) \<and>
   firing (snd (hd (rails daily_galaxy))) (day 40) \<and> in_window (day 40) 30 (day 40)"
proof -
  have r: "get_route daily_galaxy ''A'' ''B'' = Some [''A'', ''B'']"
    by (simp add: get_route_def daily_galaxy_def dict_values_def Let_def)
  have "find_optimal_departure_time exact_ops daily_galaxy ''A'' ''B'' (day 40) 30
          = Some (Inr (Some (day 30)))"
    unfolding find_optimal_departure_time_def r
    by (simp add: daily_galaxy_def dict_values_def eval_time numeral_eq_Suc exact_ops_def Let_def)
  moreover have "firing (snd (hd (rails daily_galaxy))) (day 40)"
    unfolding firing_def by (rule exI[of _ "40::nat"]) (simp add: daily_galaxy_def day_def)
  moreover have "in_window (day 40) 30 (day 40)"
    by (simp add: in_window_def usec_per_day_def)
  ultimately show ?thesis by simp
qed

section \<open>Schedule offset optimization\<close>

lemma map_of_dict_set: "map_of (dict_set d k v) = (map_of d)(k \<mapsto> v)"
  by (induction d) (auto simp: fun_eq_iff)

lemma keys_dict_set: "fst ` set (dict_set d k v) = insert k (fst ` set d)"
proof (induction d)
  case Nil
  then show ?case by simp
next
  case (Cons a d)
  then show ?case by (cases a) (simp add: insert_commute)
qed

lemma distinct_dict_set: "distinct (map fst d) \<Longrightarrow> distinct (map fst (dict_set d k v))"
  by (induction d) (auto simp: keys_dict_set)

lemma writes_Nil [simp]: "writes [] d = d"
  by (simp add: writes_def)

lemma writes_Cons [simp]: "writes ((k, v) # ws) d = writes ws (dict_set d k v)"
  by (simp add: writes_def)

lemma writes_append [simp]: "writes (ws @ ws') d = writes ws' (writes ws d)"
  by (simp add: writes_def)

lemma map_of_writes:
  "\<forall>v'. (k, v') \<in> set ws \<longrightarrow> v' = v \<Longrightarrow>
   map_of (writes ws d) k = (if k \<in> fst ` set ws then Some v else map_of d k)"
proof (induction ws arbitrary: d)
  case Nil
  then show ?case by simp
next
  case (Cons w ws)
  obtain k' v' where w: "w = (k', v')" by (cases w)
  from Cons.prems have "\<forall>v'. (k, v') \<in> set ws \<longrightarrow> v' = v" by simp
  from Cons.IH[OF this, of "dict_set d k' v'"] Cons.prems w show ?case
    by (auto simp: map_of_dict_set)
qed

lemma keys_writes: "fst ` set (writes ws d) = fst ` set ws \<union> fst ` set d"
proof (induction ws arbitrary: d)
  case Nil
  then show ?case by simp
next
  case (Cons w ws)
  then show ?case by (cases w) (simp add: keys_dict_set Un_commute insert_commute)
qed

lemma distinct_writes: "distinct (map fst d) \<Longrightarrow> distinct (map fst (writes ws d))"
  by (induction ws arbitrary: d) (auto simp: distinct_dict_set)

lemma spread_offsets_writes:
  "spread_offsets n i rs d = Inr d' \<Longrightarrow> d' = writes (spread n i rs) d"
proof (induction rs arbitrary: i d)
  case Nil
  then show ?case by simp
next
  case (Cons rail rest)
  then obtain t where t: "add_days base_time ((interval_days rail * int i) div int n) = Inr t"
    and rec: "spread_offsets n (Suc i) rest (dict_set d (id_rail rail) (rail\<lparr>next_fire := t\<rparr>)) = Inr d'"
    by (auto split: sum.splits)
  from add_days_Inr[OF t] Cons.IH[OF rec] show ?case by simp
qed

lemma spread_fst: "map fst (spread n i rs) = map id_rail rs"
  by (induction rs arbitrary: i) auto

lemma spread_nth:
  "j < length rs \<Longrightarrow>
   spread n i rs ! j =
     (id_rail (rs ! j),
      (rs ! j)\<lparr>next_fire := base_time + ((interval_days (rs ! j) * int (i + j)) div int n) * usec_per_day\<rparr>)"
proof (induction rs arbitrary: i j)
  case Nil
  then show ?case by simp
next
  case (Cons rail rest)
  then show ?case by (cases j) (auto simp: algebra_simps)
qed

lemma spread_length: "length (spread n i rs) = length rs"
  by (induction rs arbitrary: i) auto

lemma foldl_dict_set_writes:
  "foldl (\<lambda>d rail. dict_set d (id_rail rail) rail) d rs = writes (map (\<lambda>rail. (id_rail rail, rail)) rs) d"
  by (induction rs arbitrary: d) auto

lemma optimize_groups_writes:
  "optimize_groups groups d = Inr d' \<Longrightarrow> d' = writes (concat (map group_writes groups)) d"
proof (induction groups d rule: optimize_groups.induct)
  case (1 optimized_rails)
  then show ?case by simp
next
  case (2 system_id rs groups optimized_rails)
  show ?case
  proof (cases "length rs \<le> 1")
    case True
    with 2 show ?thesis by (simp add: foldl_dict_set_writes)
  next
    case False
    with "2.prems" obtain d1 where
      d1: "spread_offsets (length rs) 0 (sort_key interval_days rs) optimized_rails = Inr d1"
      and rec: "optimize_groups groups d1 = Inr d'"
      by (auto split: sum.splits)
    from "2.IH"(2)[OF False d1 rec] spread_offsets_writes[OF d1] False show ?thesis by simp
  qed
qed

lemma add_to_system_rails_map_of:
  "map_of (add_to_system_rails G rail) s =
     (if from_system rail = s
      then Some ((case map_of G s of None \<Rightarrow> [] | Some l \<Rightarrow> l) @ [rail])
      else map_of G s)"
  by (auto simp: add_to_system_rails_def map_of_dict_set split: option.splits)

lemma foldl_add_to_system_rails_map_of:
  "map_of (foldl add_to_system_rails G rs) s =
     (let l = filter (\<lambda>r. from_system r = s) rs in
      case map_of G s of
        None \<Rightarrow> (if l = [] then None else Some l)
      | Some a \<Rightarrow> Some (a @ l))"
proof (induction rs arbitrary: G)
  case Nil
  then show ?case by (simp split: option.splits)
next
  case (Cons rail rs)
  show ?case
    by (simp add: Cons.IH add_to_system_rails_map_of Let_def split: option.splits)
qed

lemma add_to_system_rails_distinct:
  "distinct (map fst G) \<Longrightarrow> distinct (map fst (add_to_system_rails G rail))"
  by (auto simp: add_to_system_rails_def distinct_dict_set split: option.splits)

lemma foldl_add_to_system_rails_distinct:
  "distinct (map fst G) \<Longrightarrow> distinct (map fst (foldl add_to_system_rails G rs))"
  by (induction rs arbitrary: G) (auto simp: add_to_system_rails_distinct)

lemma group_by_origin_set:
  "(s, l) \<in> set (group_by_origin rs) \<longleftrightarrow>
     l = filter (\<lambda>r. from_system r = s) rs \<and> l \<noteq> []"
proof -
  have d: "distinct (map fst (group_by_origin rs))"
    unfolding group_by_origin_def by (rule foldl_add_to_system_rails_distinct) simp
  have m: "map_of (group_by_origin rs) s =
             (if filter (\<lambda>r. from_system r = s) rs = [] then None
              else Some (filter (\<lambda>r. from_system r = s) rs))"
    unfolding group_by_origin_def by (simp add: foldl_add_to_system_rails_map_of Let_def)
  have "(s, l) \<in> set (group_by_origin rs) \<longleftrightarrow> map_of (group_by_origin rs) s = Some l"
    using d by simp
  with m show ?thesis by auto
qed

lemma comprehension_nth_cong:
  assumes "\<And>i. i < n \<Longrightarrow> f i = g i" and "m = n"
  shows "{f i | i. i < (m::nat)} = {g i | i. i < n}"
proof (intro set_eqI iffI)
  fix w assume "w \<in> {f i | i. i < m}"
  then obtain i where "i < n" "w = f i" using assms(2) by blast
  with assms(1) have "w = g i" by simp
  with \<open>i < n\<close> show "w \<in> {g i | i. i < n}" by blast
next
  fix w assume "w \<in> {g i | i. i < n}"
  then obtain i where "i < n" "w = g i" by blast
  with assms(1) have "w = f i" by simp
  with \<open>i < n\<close> assms(2) show "w \<in> {f i | i. i < m}" by blast
qed

lemma group_writes_set:
  "set (group_writes (s, l)) =
     {(id_rail (sort_key interval_days l ! i), respaced (sort_key interval_days l) i) | i.
        i < length l}"
proof (cases "length l \<le> 1")
  case True
  then have srt: "sort_key interval_days l = l"
    by (cases l) (auto simp: length_Suc_conv)
  have "set (map (\<lambda>rail. (id_rail rail, rail)) l) = {(id_rail (l ! i), l ! i) | i. i < length l}"
  proof (intro set_eqI iffI)
    fix w assume "w \<in> set (map (\<lambda>rail. (id_rail rail, rail)) l)"
    then obtain r where "r \<in> set l" "w = (id_rail r, r)" by auto
    then show "w \<in> {(id_rail (l ! i), l ! i) | i. i < length l}"
      by (auto simp: in_set_conv_nth)
  next
    fix w assume "w \<in> {(id_rail (l ! i), l ! i) | i. i < length l}"
    then obtain i where "i < length l" "w = (id_rail (l ! i), l ! i)" by blast
    then show "w \<in> set (map (\<lambda>rail. (id_rail rail, rail)) l)"
      using nth_mem[of i l] by auto
  qed
  with True srt show ?thesis by (simp add: respaced_def)
next
  case False
  let ?g = "sort_key interval_days l"
  have "set (spread (length l) 0 ?g) = {spread (length l) 0 ?g ! i | i. i < length ?g}"
    using set_conv_nth[of "spread (length l) 0 ?g"] by (simp add: spread_length)
  also have "\<dots> = {(id_rail (?g ! i), respaced ?g i) | i. i < length l}"
  proof (rule comprehension_nth_cong)
    fix i assume "i < length l"
    with False show "spread (length l) 0 ?g ! i = (id_rail (?g ! i), respaced ?g i)"
      by (simp add: spread_nth respaced_def)
  qed simp
  finally show ?thesis using False by simp
qed

lemma all_writes_set:
  "set (concat (map group_writes (group_by_origin rs))) =
     {(id_rail (origin_group rs s ! i), respaced (origin_group rs s) i) | s i.
        i < length (origin_group rs s)}"
  (is "?W = ?R")
proof (intro set_eqI iffI)
  fix w assume "w \<in> ?W"
  then obtain s l where sl: "(s, l) \<in> set (group_by_origin rs)" and w: "w \<in> set (group_writes (s, l))"
    by auto
  from sl have l: "l = filter (\<lambda>r. from_system r = s) rs" by (simp add: group_by_origin_set)
  from w obtain i where "i < length l"
    "w = (id_rail (sort_key interval_days l ! i), respaced (sort_key interval_days l) i)"
    unfolding group_writes_set by blast
  then show "w \<in> ?R" unfolding l origin_group_def by auto
next
  fix w assume "w \<in> ?R"
  then obtain s i where i: "i < length (origin_group rs s)"
    and w: "w = (id_rail (origin_group rs s ! i), respaced (origin_group rs s) i)"
    by blast
  let ?l = "filter (\<lambda>r. from_system r = s) rs"
  from i have ne: "?l \<noteq> []" by (auto simp: origin_group_def)
  then have sl: "(s, ?l) \<in> set (group_by_origin rs)" by (simp add: group_by_origin_set)
  from i w have "w \<in> set (group_writes (s, ?l))"
    unfolding group_writes_set origin_group_def by auto
  with sl show "w \<in> ?W"
    by (auto simp del: group_writes.simps intro!: bexI[of _ "(s, ?l)"])
qed

lemma origin_group_mem:
  "rail \<in> set (origin_group rs s) \<longleftrightarrow> rail \<in> set rs \<and> from_system rail = s"
  by (auto simp: origin_group_def)

lemma origin_group_distinct:
  "distinct (map id_rail rs) \<Longrightarrow> distinct (map id_rail (origin_group rs s))"
  unfolding origin_group_def
  by (simp add: distinct_map_filter distinct_map inj_on_def)

lemma origin_group_nth:
  "i < length (origin_group rs s) \<Longrightarrow>
   origin_group rs s ! i \<in> set rs \<and> from_system (origin_group rs s ! i) = s"
  using nth_mem[of i "origin_group rs s"] by (simp add: origin_group_mem)

lemma all_writes_functional:
  assumes d: "distinct (map id_rail rs)"
    and i: "i < length (origin_group rs s)"
    and w: "(id_rail (origin_group rs s ! i), v) \<in> set (concat (map group_writes (group_by_origin rs)))"
  shows "v = respaced (origin_group rs s) i"
proof -
  from w obtain s' i' where i': "i' < length (origin_group rs s')"
    and k: "id_rail (origin_group rs s ! i) = id_rail (origin_group rs s' ! i')"
    and v: "v = respaced (origin_group rs s') i'"
    unfolding all_writes_set by blast
  from d have inj: "inj_on id_rail (set rs)" by (simp add: distinct_map)
  from origin_group_nth[OF i] origin_group_nth[OF i'] k inj
  have same: "origin_group rs s ! i = origin_group rs s' ! i'" by (auto dest: inj_onD)
  with origin_group_nth[OF i] origin_group_nth[OF i'] have s': "s' = s" by simp
  from origin_group_distinct[OF d, of s] have "distinct (origin_group rs s)"
    by (simp add: distinct_map)
  with same i i' s' have "i' = i" by (simp add: nth_eq_iff_index_eq)
  with v s' show ?thesis by simp
qed

lemma respaced_frame: "respaced g i = (g ! i)\<lparr>next_fire := next_fire (respaced g i)\<rparr>"
  by (simp add: respaced_def)

lemma optimize_rail_schedules_lookup:
  assumes d: "distinct (map id_rail (dict_values (rails galaxy)))"
    and out: "optimize_rail_schedules galaxy = Inr optimized"
    and i: "i < length (origin_group (dict_values (rails galaxy)) s)"
  shows "map_of optimized (id_rail (origin_group (dict_values (rails galaxy)) s ! i))
           = Some (respaced (origin_group (dict_values (rails galaxy)) s) i)"
proof -
  let ?rs = "dict_values (rails galaxy)"
  let ?W = "concat (map group_writes (group_by_origin ?rs))"
  let ?k = "id_rail (origin_group ?rs s ! i)"
  from out have o: "optimized = writes ?W []"
    unfolding optimize_rail_schedules_def by (rule optimize_groups_writes)
  have mem: "(?k, respaced (origin_group ?rs s) i) \<in> set ?W"
    unfolding all_writes_set using i by blast
  then have "?k \<in> fst ` set ?W" by force
  moreover have "\<forall>v'. (?k, v') \<in> set ?W \<longrightarrow> v' = respaced (origin_group ?rs s) i"
    using all_writes_functional[OF d i] by blast
  ultimately show ?thesis unfolding o by (simp add: map_of_writes)
qed

lemma add_days_base_time:
  "0 \<le> off \<Longrightarrow> off \<le> 2556696 \<Longrightarrow> add_days base_time off = Inr (base_time + off * usec_per_day)"
  by (simp add: add_days_def timedelta_days_def datetime_add_def base_time_def datetime_max_def
      usec_per_day_def)

lemma spread_offsets_Inl:
  "spread_offsets n i g d = Inl e \<Longrightarrow> i + length g \<le> n \<Longrightarrow>
   e = OverflowError \<and> (\<exists>r \<in> set g. interval_days r < 0 \<or> 2556696 < interval_days r)"
proof (induction g arbitrary: i d)
  case Nil
  then show ?case by simp
next
  case (Cons rail rest)
  let ?off = "(interval_days rail * int i) div int n"
  show ?case
  proof (cases "add_days base_time ?off")
    case (Inl e')
    have "interval_days rail < 0 \<or> 2556696 < interval_days rail"
    proof (rule ccontr)
      assume "\<not> (interval_days rail < 0 \<or> 2556696 < interval_days rail)"
      then have iv: "0 \<le> interval_days rail" "interval_days rail \<le> 2556696" by auto
      from Cons.prems(2) have "int i < int n" by simp
      then have "interval_days rail * int i \<le> interval_days rail * int n"
        using iv(1) by (simp add: mult_left_mono)
      moreover have npos: "0 < int n" using \<open>int i < int n\<close> by simp
      ultimately have "?off \<le> (interval_days rail * int n) div int n"
        by (intro zdiv_mono1)
      then have "?off \<le> interval_days rail" using npos by simp
      moreover have "0 \<le> interval_days rail * int i" using iv(1) by simp
      then have "0 \<le> ?off" using npos by (simp add: pos_imp_zdiv_nonneg_iff)
      ultimately have "add_days base_time ?off = Inr (base_time + ?off * usec_per_day)"
        using iv(2) by (intro add_days_base_time) auto
      with Inl show False by simp
    qed
    with Inl Cons.prems(1) add_days_Inl[OF Inl] show ?thesis by simp
  next
    case (Inr t)
    with Cons.prems have rec: "spread_offsets n (Suc i) rest
        (dict_set d (id_rail rail) (rail\<lparr>next_fire := t\<rparr>)) = Inl e"
      and "Suc i + length rest \<le> n"
      by auto
    from Cons.IH[OF this] show ?thesis by auto
  qed
qed

lemma optimize_groups_Inl:
  "optimize_groups groups d = Inl e \<Longrightarrow>
   e = OverflowError \<and>
   (\<exists>(s, l) \<in> set groups. \<exists>r \<in> set l. interval_days r < 0 \<or> 2556696 < interval_days r)"
proof (induction groups d rule: optimize_groups.induct)
  case (1 optimized_rails)
  then show ?case by simp
next
  case (2 system_id rs groups optimized_rails)
  show ?case
  proof (cases "length rs \<le> 1")
    case True
    with 2 show ?thesis by auto
  next
    case False
    show ?thesis
    proof (cases "spread_offsets (length rs) 0 (sort_key interval_days rs) optimized_rails")
      case (Inl e')
      with False "2.prems" have "e' = e" by simp
      with spread_offsets_Inl[OF Inl] show ?thesis by auto
    next
      case (Inr d1)
      with False "2.prems" have "optimize_groups groups d1 = Inl e" by simp
      from "2.IH"(2)[OF False Inr this] show ?thesis by auto
    qed
  qed
qed

text \<open>
  C8. When the rails of the galaxy have pairwise distinct identifiers,
  \<open>optimize_rail_schedules\<close> returns a dictionary that holds, under the identifier of
  every input rail, that rail with at most \<open>next_fire\<close> changed, and nothing else. The
  rails that share an origin are taken in the order of increasing firing interval; with
  \<open>n \<ge> 2\<close> of them, the rail at position \<open>i\<close> of that order gets the next firing
  \<open>datetime(3000, 1, 1) + (interval_days * i) // n\<close> days, and a rail that is alone at
  its origin is returned as it is. The function raises OverflowError only when an
  interval is negative or longer than the days left until the year 9999. The input is
  not changed: the model's function returns the new dictionary and nothing else.
\<close>

theorem optimize_rail_schedules_respaces:
  assumes "distinct (map id_rail (dict_values (rails galaxy)))"
  shows "case optimize_rail_schedules galaxy of
           Inl e \<Rightarrow>
             e = OverflowError \<and>
             (\<exists>r \<in> set (dict_values (rails galaxy)).
                interval_days r < 0 \<or> 2556696 < interval_days r)
         | Inr optimized \<Rightarrow>
             (\<forall>rail \<in> set (dict_values (rails galaxy)).
                \<exists>t. map_of optimized (id_rail rail) = Some (rail\<lparr>next_fire := t\<rparr>)) \<and>
             (\<forall>(k, r') \<in> set optimized.
                \<exists>rail \<in> set (dict_values (rails galaxy)).
                  k = id_rail rail \<and> r' = rail\<lparr>next_fire := next_fire r'\<rparr>) \<and>
             (\<forall>s. sorted (map interval_days (origin_group (dict_values (rails galaxy)) s)) \<and>
                (\<forall>i < length (origin_group (dict_values (rails galaxy)) s).
                   map_of optimized (id_rail (origin_group (dict_values (rails galaxy)) s ! i))
                     = Some (respaced (origin_group (dict_values (rails galaxy)) s) i)))"
proof (cases "optimize_rail_schedules galaxy")
  case (Inl e)
  let ?rs = "dict_values (rails galaxy)"
  from Inl optimize_groups_Inl[of "group_by_origin ?rs" "[]" e]
  obtain s l r where "e = OverflowError" "(s, l) \<in> set (group_by_origin ?rs)" "r \<in> set l"
    "interval_days r < 0 \<or> 2556696 < interval_days r"
    unfolding optimize_rail_schedules_def by auto
  moreover from this have "r \<in> set ?rs" by (auto simp: group_by_origin_set)
  ultimately show ?thesis using Inl by auto
next
  case (Inr optimized)
  let ?rs = "dict_values (rails galaxy)"
  let ?W = "concat (map group_writes (group_by_origin ?rs))"
  note look = optimize_rail_schedules_lookup[OF assms Inr]
  have a: "\<exists>t. map_of optimized (id_rail rail) = Some (rail\<lparr>next_fire := t\<rparr>)"
    if "rail \<in> set ?rs" for rail
  proof -
    from that have "rail \<in> set (origin_group ?rs (from_system rail))"
      by (simp add: origin_group_mem)
    then obtain i where i: "i < length (origin_group ?rs (from_system rail))"
      "origin_group ?rs (from_system rail) ! i = rail"
      by (auto simp: in_set_conv_nth)
    from look[OF i(1)] i(2) respaced_frame[of "origin_group ?rs (from_system rail)" i]
    show ?thesis by metis
  qed
  have b: "\<exists>rail \<in> set ?rs. k = id_rail rail \<and> r' = rail\<lparr>next_fire := next_fire r'\<rparr>"
    if "(k, r') \<in> set optimized" for k r'
  proof -
    from Inr have o: "optimized = writes ?W []"
      unfolding optimize_rail_schedules_def by (rule optimize_groups_writes)
    have "distinct (map fst optimized)" unfolding o by (rule distinct_writes) simp
    with that have m: "map_of optimized k = Some r'" by simp
    from that have "k \<in> fst ` set optimized" by force
    then have "k \<in> fst ` set ?W" unfolding o keys_writes by simp
    then obtain w where w: "w \<in> set ?W" "fst w = k" by blast
    from w(2) have "w = (k, snd w)" by auto
    with w(1) have "(k, snd w) \<in> set ?W" by metis
    then obtain s i where i: "i < length (origin_group ?rs s)"
      and k: "k = id_rail (origin_group ?rs s ! i)"
      unfolding all_writes_set by blast
    from look[OF i] m k have r': "r' = respaced (origin_group ?rs s) i" by simp
    from origin_group_nth[OF i] have "origin_group ?rs s ! i \<in> set ?rs" by simp
    moreover have "r' = (origin_group ?rs s ! i)\<lparr>next_fire := next_fire r'\<rparr>"
      unfolding r' by (rule respaced_frame)
    ultimately show ?thesis using k by blast
  qed
  have c: "sorted (map interval_days (origin_group ?rs s))" for s
    by (simp add: origin_group_def)
  from a b c look show ?thesis unfolding Inr by auto
qed

theorem optimize_rail_schedules_respaces_witness:
  "optimize_rail_schedules hub_galaxy =
     Inr [(''R2'', example_rail ''R2'' ''A'' ''C'' 3 base_time),
          (''R1'', example_rail ''R1'' ''A'' ''B'' 7 (base_time + 3 * usec_per_day)),
          (''R3'', example_rail ''R3'' ''B'' ''C'' 5 (day 6))] \<and>
   origin_group (dict_values (rails hub_galaxy)) ''A''
     = [example_rail ''R2'' ''A'' ''C'' 3 (day 4), example_rail ''R1'' ''A'' ''B'' 7 (day 10)] \<and>
   map_of [(''R2'', example_rail ''R2'' ''A'' ''C'' 3 base_time),
           (''R1'', example_rail ''R1'' ''A'' ''B'' 7 (base_time + 3 * usec_per_day)),
           (''R3'', example_rail ''R3'' ''B'' ''C'' 5 (day 6))] ''R1''
     = Some (respaced (origin_group (dict_values (rails hub_galaxy)) ''A'') 1)"
proof -
  have d: "distinct (map id_rail (dict_values (rails hub_galaxy)))"
    by (simp add: hub_galaxy_def dict_values_def example_rail_def)
  have g: "origin_group (dict_values (rails hub_galaxy)) ''A''
     = [example_rail ''R2'' ''A'' ''C'' 3 (day 4), example_rail ''R1'' ''A'' ''B'' 7 (day 10)]"
    by (simp add: origin_group_def hub_galaxy_def dict_values_def example_rail_def)
  have e: "optimize_rail_schedules hub_galaxy =
     Inr [(''R2'', example_rail ''R2'' ''A'' ''C'' 3 base_time),
          (''R1'', example_rail ''R1'' ''A'' ''B'' 7 (base_time + 3 * usec_per_day)),
          (''R3'', example_rail ''R3'' ''B'' ''C'' 5 (day 6))]"
    by (simp add: optimize_rail_schedules_def group_by_origin_def add_to_system_rails_def
        hub_galaxy_def dict_values_def example_rail_def add_days_def timedelta_days_def
        datetime_add_def datetime_max_def base_time_def usec_per_day_def)
  let ?og = "origin_group (dict_values (rails hub_galaxy)) ''A''"
  let ?out = "[(''R2'', example_rail ''R2'' ''A'' ''C'' 3 base_time),
          (''R1'', example_rail ''R1'' ''A'' ''B'' 7 (base_time + 3 * usec_per_day)),
          (''R3'', example_rail ''R3'' ''B'' ''C'' 5 (day 6))]"
  note t = optimize_rail_schedules_respaces[OF d, unfolded e sum.case]
  then have "\<forall>i < length ?og. map_of ?out (id_rail (?og ! i)) = Some (respaced ?og i)"
    by blast
  then have "1 < length ?og \<longrightarrow> map_of ?out (id_rail (?og ! 1)) = Some (respaced ?og 1)"
    by blast
  moreover have "1 < length ?og" "id_rail (?og ! 1) = ''R1''"
    by (simp_all add: g example_rail_def)
  ultimately have "map_of ?out ''R1'' = Some (respaced ?og 1)" by simp
  with e g show ?thesis by simp
qed

end
